theory Spec2Isabelle
  imports Main
begin

section \<open>mov2mp4: a shallow embedding of \<^verbatim>\<open>mov2mp4.py\<close>\<close>

text \<open>
  The script locates \<^verbatim>\<open>ffmpeg\<close>, builds one command line per input file, runs it and
  maps the outcomes to a process exit status. The functions of the script
  (\<^verbatim>\<open>which_ffmpeg\<close>, \<^verbatim>\<open>build_cmd\<close>, \<^verbatim>\<open>convert_file\<close>, \<^verbatim>\<open>iter_mov_files\<close>, \<^verbatim>\<open>main\<close>) are
  translated one by one. What they call in the Python library (\<^verbatim>\<open>pathlib\<close>, \<^verbatim>\<open>shutil.which\<close>,
  \<^verbatim>\<open>subprocess.run\<close>) is the environment: pure paths are modelled as \<^verbatim>\<open>PurePosixPath\<close>
  computes them (Python 3.10 to 3.13), the file system as a table from absolute
  positions to kinds, and the encoder as a function that yields an exit code.
\<close>

subsection \<open>Strings\<close>

text \<open>\<^verbatim>\<open>s.split(c)\<close>: the pieces of \<open>s\<close> between the occurrences of \<open>c\<close>.\<close>

fun split_sep :: "char \<Rightarrow> string \<Rightarrow> string list" where
  "split_sep c [] = [[]]"
| "split_sep c (x # xs) =
     (if x = c then [] # split_sep c xs
      else (case split_sep c xs of w # ws \<Rightarrow> (x # w) # ws | [] \<Rightarrow> [[x]]))"

text \<open>\<^verbatim>\<open>sep.join(xs)\<close>.\<close>

fun join :: "string \<Rightarrow> string list \<Rightarrow> string" where
  "join sep [] = []"
| "join sep [x] = x"
| "join sep (x # y # zs) = x @ sep @ join sep (y # zs)"

text \<open>\<^verbatim>\<open>str(n)\<close> for an integer: decimal digits, with a leading minus sign below zero.\<close>

function digits :: "nat \<Rightarrow> string" where
  "digits n =
     (if n < 10 then [''0123456789'' ! n]
      else digits (n div 10) @ [''0123456789'' ! (n mod 10)])"
  by pat_completeness auto
termination
  by (relation "measure id") auto

declare digits.simps [simp del]

definition str_int :: "int \<Rightarrow> string" where
  "str_int i = (if i < 0 then CHR ''-'' # digits (nat (- i)) else digits (nat i))"

text \<open>\<^verbatim>\<open>s.rfind(c)\<close>: the index of the last occurrence, \<open>None\<close> for Python's \<open>-1\<close>.\<close>

definition rfind :: "char \<Rightarrow> string \<Rightarrow> nat option" where
  "rfind c s =
     (if c \<in> set s then Some (length s - 1 - length (takeWhile (\<lambda>x. x \<noteq> c) (rev s)))
      else None)"

text \<open>
  \<^verbatim>\<open>s.lower()\<close> on the ASCII letters. The script compares the result with \<^verbatim>\<open>".mp4"\<close> only,
  and no character outside ASCII lowers to one of \<open>m\<close>, \<open>p\<close>, \<open>4\<close> or the dot.
\<close>

definition lower_char :: "char \<Rightarrow> char" where
  "lower_char c =
     (case map_of (zip ''ABCDEFGHIJKLMNOPQRSTUVWXYZ'' ''abcdefghijklmnopqrstuvwxyz'') c of
        None \<Rightarrow> c
      | Some d \<Rightarrow> d)"

definition str_lower :: "string \<Rightarrow> string" where
  "str_lower s = map lower_char s"

subsection \<open>Exceptions\<close>

text \<open>
  \<^verbatim>\<open>sys.exit(n)\<close> raises \<^verbatim>\<open>SystemExit\<close>; \<^verbatim>\<open>with_suffix\<close> raises \<^verbatim>\<open>ValueError\<close> on a path with
  an empty name; \<^verbatim>\<open>mkdir\<close> raises a subclass of \<^verbatim>\<open>OSError\<close> (\<^verbatim>\<open>FileExistsError\<close> or
  \<^verbatim>\<open>NotADirectoryError\<close>) when a file is in the way; \<^verbatim>\<open>print\<close> raises
  \<^verbatim>\<open>UnicodeEncodeError\<close> when the standard output cannot encode the text. The script
  catches none of them. An exception that reaches the top level ends the process with
  status 1, a \<^verbatim>\<open>SystemExit\<close> with the status it carries.
\<close>

datatype exn = SystemExit nat | ValueError | OSError | UnicodeEncodeError


subsection \<open>Pure paths\<close>

text \<open>
  A \<^verbatim>\<open>PurePosixPath\<close> is its anchor (\<^verbatim>\<open>""\<close> for a relative path, \<^verbatim>\<open>"/"\<close>, or \<^verbatim>\<open>"//"\<close> for
  exactly two leading slashes) and its components. The constructor drops empty and
  \<^verbatim>\<open>"."\<close> components and keeps \<^verbatim>\<open>".."\<close>.
\<close>

datatype path = Path (anchor: string) (parts: "string list")

definition Path_of :: "string \<Rightarrow> path" where
  "Path_of s =
     Path (if take 2 s = ''//'' \<and> take 3 s \<noteq> ''///'' then ''//''
           else if take 1 s = ''/'' then ''/'' else [])
          (filter (\<lambda>c. c \<noteq> [] \<and> c \<noteq> ''.'') (split_sep (CHR ''/'') s))"

definition str_of :: "path \<Rightarrow> string" where
  "str_of p = (if anchor p = [] \<and> parts p = [] then ''.'' else anchor p @ join ''/'' (parts p))"

text \<open>\<^verbatim>\<open>p.name\<close>: the last component, empty when there is none.\<close>

definition name :: "path \<Rightarrow> string" where
  "name p = (if parts p = [] then [] else last (parts p))"

text \<open>
  \<^verbatim>\<open>p.suffix\<close>: from the last dot of the name on, unless that dot is the first or the
  last character of the name.
\<close>

definition suffix :: "path \<Rightarrow> string" where
  "suffix p =
     (case rfind (CHR ''.'') (name p) of
        None \<Rightarrow> []
      | Some i \<Rightarrow> if 0 < i \<and> i < length (name p) - 1 then drop i (name p) else [])"

text \<open>\<^verbatim>\<open>p.stem\<close>: the name without its suffix.\<close>

definition stem :: "path \<Rightarrow> string" where
  "stem p =
     (case rfind (CHR ''.'') (name p) of
        None \<Rightarrow> name p
      | Some i \<Rightarrow> if 0 < i \<and> i < length (name p) - 1 then take i (name p) else name p)"

text \<open>\<^verbatim>\<open>p.parent\<close>: the path without its last component; a path without components is its own parent.\<close>

definition parent :: "path \<Rightarrow> path" where
  "parent p = Path (anchor p) (butlast (parts p))"

text \<open>\<^verbatim>\<open>p / n\<close> for a single file name \<open>n\<close>.\<close>

definition child :: "path \<Rightarrow> string \<Rightarrow> path" where
  "child p n = Path (anchor p) (parts p @ [n])"

text \<open>
  \<^verbatim>\<open>p.with_suffix(s)\<close>: raises \<^verbatim>\<open>ValueError\<close> when \<open>s\<close> holds a slash, is a lone dot or is
  non-empty without a leading dot, and when the name of \<open>p\<close> is empty; otherwise the
  old suffix is cut off the name and \<open>s\<close> is appended.
\<close>

definition with_suffix :: "path \<Rightarrow> string \<Rightarrow> exn + path" where
  "with_suffix p s =
     (if CHR ''/'' \<in> set s then Inl ValueError
      else if (s \<noteq> [] \<and> take 1 s \<noteq> ''.'') \<or> s = ''.'' then Inl ValueError
      else if name p = [] then Inl ValueError
      else
        let old_suffix = suffix p;
            nm = (if old_suffix = [] then name p @ s
                  else take (length (name p) - length old_suffix) (name p) @ s)
        in Inr (Path (anchor p) (butlast (parts p) @ [nm])))"

subsection \<open>The command builder\<close>

text \<open>
  \<^verbatim>\<open>build_cmd\<close>, lines 35 to 62. The list \<open>cmd\<close> grows by \<^verbatim>\<open>+=\<close>; \<^verbatim>\<open>if extra: cmd += extra\<close>
  appends the passthrough arguments when there are any.
\<close>

definition build_cmd ::
  "string \<Rightarrow> path \<Rightarrow> path \<Rightarrow> bool \<Rightarrow> int \<Rightarrow> string \<Rightarrow> string list \<Rightarrow> string list" where
  "build_cmd ffmpeg inp out copy crf preset extra =
     (let cmd = [ffmpeg, ''-y'', ''-i'', str_of inp];
          cmd = (if copy then cmd @ [''-c'', ''copy'']
                 else cmd @ [''-c:v'', ''libx264'',
                             ''-crf'', str_int crf,
                             ''-preset'', preset,
                             ''-c:a'', ''aac'',
                             ''-b:a'', ''192k'']);
          cmd = cmd @ [''-c:s'', ''copy''];
          cmd = cmd @ [''-movflags'', ''+faststart''];
          cmd = (if extra \<noteq> [] then cmd @ extra else cmd);
          cmd = cmd @ [str_of out]
      in cmd)"

text \<open>
  A directive is an option token followed by its value. \<open>occurrences a b xs\<close> counts
  the places of \<open>xs\<close> where \<open>a\<close> is followed directly by \<open>b\<close>.
\<close>

fun occurrences :: "string \<Rightarrow> string \<Rightarrow> string list \<Rightarrow> nat" where
  "occurrences a b (x # y # zs) = (if x = a \<and> y = b then 1 else 0) + occurrences a b (y # zs)"
| "occurrences a b [x] = 0"
| "occurrences a b [] = 0"

subsection \<open>The file system and the world\<close>

text \<open>
  The file system is a table from absolute positions (the component names from the
  root directory down) to kinds, in enumeration order; the root directory, at the
  empty position, always exists. There are no symbolic links and no permissions.
\<close>

datatype kind = File | Dir

type_synonym fsys = "(string list \<times> kind) list"

definition lookup :: "fsys \<Rightarrow> string list \<Rightarrow> kind option" where
  "lookup t pos = (if pos = [] then Some Dir else map_of t pos)"

text \<open>
  Path resolution as the kernel does it: from the directory at \<open>pos\<close>, one component
  at a time; \<^verbatim>\<open>".."\<close> steps to the parent directory (the root is its own parent), every
  component but the last must lead to a directory, and the result is the position
  reached, if something is there.
\<close>

fun resolve :: "fsys \<Rightarrow> string list \<Rightarrow> string list \<Rightarrow> string list option" where
  "resolve t pos [] = (if lookup t pos = None then None else Some pos)"
| "resolve t pos (c # cs) =
     (if lookup t pos = Some Dir
      then resolve t (if c = ''..'' then butlast pos else pos @ [c]) cs
      else None)"

text \<open>
  \<^verbatim>\<open>mkdir(parents=True, exist_ok=True)\<close> from the directory at \<open>pos\<close>: a missing component
  is created as a directory, an existing directory is entered, and a file in the way
  is an error (the flag is \<open>False\<close>). Directories made before the error stay.
\<close>

fun mkdirs :: "fsys \<Rightarrow> string list \<Rightarrow> string list \<Rightarrow> bool \<times> fsys" where
  "mkdirs t pos [] = (True, t)"
| "mkdirs t pos (c # cs) =
     (if c = ''..'' then mkdirs t (butlast pos) cs
      else (case lookup t (pos @ [c]) of
              Some Dir \<Rightarrow> mkdirs t (pos @ [c]) cs
            | Some File \<Rightarrow> (False, t)
            | None \<Rightarrow> mkdirs (t @ [(pos @ [c], Dir)]) (pos @ [c]) cs))"

text \<open>
  What the process writes and runs, in order: the two standard streams, and the
  commands handed to \<^verbatim>\<open>subprocess.run\<close> with the exit code each one returned.
\<close>

datatype event =
    Err_no_ffmpeg
  | Err_no_existe path
  | Ejecutando "string list"
  | Spawn "string list" nat
  | Convertido string string
  | Fallo path nat
  | No_movs

text \<open>
  The world of one run: the file system, the working directory (an absolute
  position), what \<^verbatim>\<open>shutil.which("ffmpeg")\<close> returns, which texts the standard output
  can encode (its encoding and error handler decide), and the events so far.
\<close>

record world =
  fs :: fsys
  cwd :: "string list"
  ffmpeg_exe :: "string option"
  stdout_encodes :: "string \<Rightarrow> bool"
  trace :: "event list"

text \<open>
  The encoder is the external program: given the command and the file system it
  finds, it ends with an exit code. Its own writes are not modelled.
\<close>

type_synonym encoder = "string list \<Rightarrow> fsys \<Rightarrow> nat"

definition emit :: "event \<Rightarrow> world \<Rightarrow> world" where
  "emit e w = w\<lparr>trace := trace w @ [e]\<rparr>"

text \<open>
  The lines that go to the standard output, as the bytes of their UTF-8 text: line 76
  (\<^verbatim>\<open>print\<close> puts a space between its two arguments), line 80 with its check mark
  (bytes E2 9C 94) and its arrow (bytes E2 86 92), and line 127.
\<close>

fun stdout_text :: "event \<Rightarrow> string" where
  "stdout_text (Ejecutando cmd) = ''Ejecutando: '' @ join '' '' cmd"
| "stdout_text (Convertido a b) =
     [CHR 0xE2, CHR 0x9C, CHR 0x94] @ '' Convertido: '' @ a @ ''  ''
     @ [CHR 0xE2, CHR 0x86, CHR 0x92] @ ''  '' @ b"
| "stdout_text No_movs = ''No se encontraron archivos .mov.''"
| "stdout_text e = []"

declare stdout_text.simps [simp del]

text \<open>
  \<^verbatim>\<open>print\<close>: the line is written when the standard output can encode it, and
  \<^verbatim>\<open>UnicodeEncodeError\<close> is raised otherwise. The writes to the standard error (lines 30,
  31, 83 and 108) are \<open>emit\<close>: that stream replaces what it cannot encode.
\<close>

definition print :: "event \<Rightarrow> world \<Rightarrow> exn option \<times> world" where
  "print e w =
     (if stdout_encodes w (stdout_text e) then (None, emit e w)
      else (Some UnicodeEncodeError, w))"

definition start :: "world \<Rightarrow> path \<Rightarrow> string list" where
  "start w p = (if anchor p = [] then cwd w else [])"

definition stat :: "world \<Rightarrow> path \<Rightarrow> kind option" where
  "stat w p =
     (case resolve (fs w) (start w p) (parts p) of
        None \<Rightarrow> None
      | Some q \<Rightarrow> lookup (fs w) q)"

definition path_exists :: "world \<Rightarrow> path \<Rightarrow> bool" where
  "path_exists w p = (stat w p \<noteq> None)"

definition is_file :: "world \<Rightarrow> path \<Rightarrow> bool" where
  "is_file w p = (stat w p = Some File)"

definition is_dir :: "world \<Rightarrow> path \<Rightarrow> bool" where
  "is_dir w p = (stat w p = Some Dir)"

definition mkdir_parents :: "path \<Rightarrow> world \<Rightarrow> exn option \<times> world" where
  "mkdir_parents p w =
     (case mkdirs (fs w) (start w p) (parts p) of
        (True, t) \<Rightarrow> (None, w\<lparr>fs := t\<rparr>)
      | (False, t) \<Rightarrow> (Some OSError, w\<lparr>fs := t\<rparr>))"

text \<open>
  \<^verbatim>\<open>subprocess.run(cmd, check=True)\<close>: the exit code of the encoder, recorded. A non-zero
  code is the \<^verbatim>\<open>CalledProcessError\<close> that \<^verbatim>\<open>convert_file\<close> catches. The executable is the
  one \<^verbatim>\<open>shutil.which\<close> has just found, so the process starts.
\<close>

definition subprocess_run :: "encoder \<Rightarrow> string list \<Rightarrow> world \<Rightarrow> nat \<times> world" where
  "subprocess_run enc cmd w = (let rc = enc cmd (fs w) in (rc, emit (Spawn cmd rc) w))"

text \<open>
  The pattern \<^verbatim>\<open>"*.mov"\<close> matches the names that end in \<^verbatim>\<open>".mov"\<close>, the name \<^verbatim>\<open>".mov"\<close>
  included. \<^verbatim>\<open>root.glob\<close> yields the matching entries of the directory \<open>root\<close>, in
  the order of the listing. \<^verbatim>\<open>root.rglob\<close> yields the matching entries of \<open>root\<close> and then,
  for every directory among the entries of \<open>root\<close> in the order of the listing, those
  that \<^verbatim>\<open>rglob\<close> finds in it (the walk of Python 3.10 and 3.11; the spec leaves the
  order open). Both yield \<open>root\<close> extended by the names that lead to the entry, whatever
  its kind, and nothing when \<open>root\<close> is not a directory.
\<close>

definition fnmatch_mov :: "string \<Rightarrow> bool" where
  "fnmatch_mov n = (4 \<le> length n \<and> drop (length n - 4) n = ''.mov'')"

definition glob_mov :: "world \<Rightarrow> path \<Rightarrow> path list" where
  "glob_mov w root =
     (case resolve (fs w) (start w root) (parts root) of
        None \<Rightarrow> []
      | Some d \<Rightarrow>
          if lookup (fs w) d = Some Dir
          then [Path (anchor root) (parts root @ drop (length d) q).
                  (q, k) \<leftarrow> fs w, q \<noteq> [], butlast q = d, fnmatch_mov (last q)]
          else [])"

definition below :: "string list \<Rightarrow> string list \<Rightarrow> bool" where
  "below d q = (length d < length q \<and> take (length d) q = d)"

function rwalk :: "fsys \<Rightarrow> string list \<Rightarrow> string list list" where
  "rwalk t d =
     [q. (q, k) \<leftarrow> t, q \<noteq> [], butlast q = d, fnmatch_mov (last q)]
     @ concat (map (rwalk t) [q. (q, k) \<leftarrow> t, q \<noteq> [], butlast q = d, k = Dir])"
  by pat_completeness auto
termination
proof (relation "measure (\<lambda>(t, d). length (filter (\<lambda>(q, k). below d q) t))")
  show "wf (measure (\<lambda>(t, d). length (filter (\<lambda>(q, k). below d q) t)))" by simp
next
  fix t :: fsys and d q :: "string list"
  assume "q \<in> set [q. (q, k) \<leftarrow> t, q \<noteq> [], butlast q = d, k = Dir]"
  then have q: "(q, Dir) \<in> set t" "q \<noteq> []" "butlast q = d" by auto
  then have dq: "below d q" by (auto simp: below_def butlast_conv_take)
  have nq: "\<not> below q q" by (simp add: below_def)
  have tr: "below d p" if "below q p" for p
  proof -
    from that have l: "length q < length p" and tq: "take (length q) p = q" by (auto simp: below_def)
    from dq have ld: "length d < length q" and td: "take (length d) q = d" by (auto simp: below_def)
    have "take (length d) p = take (length d) (take (length q) p)" using ld by (simp add: min_def)
    with tq td have "take (length d) p = d" by simp
    with l ld show ?thesis by (simp add: below_def)
  qed
  have sub: "filter (\<lambda>(p, k). below q p) t
      = filter (\<lambda>(p, k). below q p) (filter (\<lambda>(p, k). below d p) t)"
    using tr by (induction t) auto
  have "(q, Dir) \<in> set (filter (\<lambda>(p, k). below d p) t)" using q(1) dq by simp
  then have "length (filter (\<lambda>(p, k). below q p) (filter (\<lambda>(p, k). below d p) t))
      < length (filter (\<lambda>(p, k). below d p) t)"
    using nq by (intro length_filter_less [of "(q, Dir)"]) simp_all
  with sub show "((t, q), (t, d)) \<in> measure (\<lambda>(t, d). length (filter (\<lambda>(q, k). below d q) t))"
    by simp
qed

declare rwalk.simps [simp del]

definition rglob_mov :: "world \<Rightarrow> path \<Rightarrow> path list" where
  "rglob_mov w root =
     (case resolve (fs w) (start w root) (parts root) of
        None \<Rightarrow> []
      | Some d \<Rightarrow>
          if lookup (fs w) d = Some Dir
          then [Path (anchor root) (parts root @ drop (length d) q). q \<leftarrow> rwalk (fs w) d]
          else [])"

subsection \<open>The script\<close>

text \<open>\<^verbatim>\<open>which_ffmpeg\<close>, lines 27 to 33: \<^verbatim>\<open>if not exe\<close> holds for \<^verbatim>\<open>None\<close> and for the empty string.\<close>

definition which_ffmpeg :: "world \<Rightarrow> (exn + string) \<times> world" where
  "which_ffmpeg w =
     (case ffmpeg_exe w of
        None \<Rightarrow> (Inl (SystemExit 1), emit Err_no_ffmpeg w)
      | Some exe \<Rightarrow>
          if exe = [] then (Inl (SystemExit 1), emit Err_no_ffmpeg w)
          else (Inr exe, w))"

text \<open>
  \<^verbatim>\<open>convert_file\<close>, lines 64 to 84. An exception of \<^verbatim>\<open>which_ffmpeg\<close>, \<^verbatim>\<open>with_suffix\<close>,
  \<^verbatim>\<open>mkdir\<close> or \<^verbatim>\<open>print\<close> leaves the function, also the one of the \<^verbatim>\<open>print\<close> inside the
  \<^verbatim>\<open>try\<close> block; only \<^verbatim>\<open>CalledProcessError\<close> is caught and gives \<open>False\<close>.
\<close>

definition convert_file ::
  "encoder \<Rightarrow> path \<Rightarrow> path option \<Rightarrow> bool \<Rightarrow> int \<Rightarrow> string \<Rightarrow> string list \<Rightarrow> world
     \<Rightarrow> (exn + bool) \<times> world" where
  "convert_file enc inp out copy crf preset extra w =
     (case which_ffmpeg w of
        (Inl e, w1) \<Rightarrow> (Inl e, w1)
      | (Inr ffmpeg, w1) \<Rightarrow>
          (case (case out of None \<Rightarrow> with_suffix inp ''.mp4'' | Some p \<Rightarrow> Inr p) of
             Inl e \<Rightarrow> (Inl e, w1)
           | Inr out' \<Rightarrow>
               (case mkdir_parents (parent out') w1 of
                  (Some e, w2) \<Rightarrow> (Inl e, w2)
                | (None, w2) \<Rightarrow>
                    let cmd = build_cmd ffmpeg inp out' copy crf preset extra in
                    (case print (Ejecutando cmd) w2 of
                       (Some e, w3) \<Rightarrow> (Inl e, w3)
                     | (None, w3) \<Rightarrow>
                         let (rc, w4) = subprocess_run enc cmd w3 in
                         if rc = 0 then
                           (case print (Convertido (name inp) (name out')) w4 of
                              (Some e, w5) \<Rightarrow> (Inl e, w5)
                            | (None, w5) \<Rightarrow> (Inr True, w5))
                         else (Inr False, emit (Fallo inp rc) w4)))))"

text \<open>\<^verbatim>\<open>iter_mov_files\<close>, lines 86 to 92.\<close>

definition iter_mov_files :: "world \<Rightarrow> path \<Rightarrow> bool \<Rightarrow> path list" where
  "iter_mov_files w root recursive =
     (if is_file w root then [root]
      else if recursive then rglob_mov w root
      else glob_mov w root)"

text \<open>The loop of lines 130 to 134, with the counter \<open>failures\<close>.\<close>

fun batch_loop ::
  "encoder \<Rightarrow> path list \<Rightarrow> bool \<Rightarrow> int \<Rightarrow> string \<Rightarrow> string list \<Rightarrow> nat \<Rightarrow> world
     \<Rightarrow> (exn + nat) \<times> world" where
  "batch_loop enc [] copy crf preset extra failures w = (Inr failures, w)"
| "batch_loop enc (f # movs) copy crf preset extra failures w =
     (case convert_file enc f None copy crf preset extra w of
        (Inl e, w') \<Rightarrow> (Inl e, w')
      | (Inr ok, w') \<Rightarrow>
          batch_loop enc movs copy crf preset extra (failures + (if ok then 0 else 1)) w')"

text \<open>
  The parsed command line (\<^verbatim>\<open>args\<close> of line 104). \<^verbatim>\<open>--output\<close> and \<^verbatim>\<open>--extra\<close> are \<^verbatim>\<open>None\<close>
  when absent. A command line that \<^verbatim>\<open>argparse\<close> rejects never reaches line 106.
\<close>

record args =
  arg_input :: string
  arg_output :: "string option"
  arg_copy :: bool
  arg_crf :: int
  arg_preset :: string
  arg_recursive :: bool
  arg_extra :: "string list option"

text \<open>
  \<^verbatim>\<open>main\<close> from line 106 on. Every path through it ends in \<^verbatim>\<open>sys.exit\<close> or in an
  exception that nothing catches, so the result is the exception that ends the run.
\<close>

definition main :: "encoder \<Rightarrow> args \<Rightarrow> world \<Rightarrow> exn \<times> world" where
  "main enc a w =
     (let inp = Path_of (arg_input a) in
      if \<not> path_exists w inp then (SystemExit 1, emit (Err_no_existe inp) w)
      else if is_file w inp then
        (case (case arg_output a of
                 None \<Rightarrow> Inr None
               | Some s \<Rightarrow>
                   if s = [] then Inr None
                   else let out = Path_of s in
                        if str_lower (suffix out) \<noteq> ''.mp4''
                        then map_sum id Some (with_suffix out ''.mp4'')
                        else Inr (Some out)) of
           Inl e \<Rightarrow> (e, w)
         | Inr out \<Rightarrow>
             let extra = (case arg_extra a of None \<Rightarrow> [] | Some xs \<Rightarrow> if xs \<noteq> [] then xs else [])
             in (case convert_file enc inp out (arg_copy a) (arg_crf a) (arg_preset a) extra w of
                   (Inl e, w') \<Rightarrow> (e, w')
                 | (Inr ok, w') \<Rightarrow> (SystemExit (if ok then 0 else 2), w')))
      else
        let movs = iter_mov_files w inp (arg_recursive a) in
        if movs = [] then
          (case print No_movs w of
             (Some e, w') \<Rightarrow> (e, w')
           | (None, w') \<Rightarrow> (SystemExit 0, w'))
        else
          (case batch_loop enc movs (arg_copy a) (arg_crf a) (arg_preset a)
                  (case arg_extra a of None \<Rightarrow> [] | Some xs \<Rightarrow> if xs \<noteq> [] then xs else []) 0 w of
             (Inl e, w') \<Rightarrow> (e, w')
           | (Inr failures, w') \<Rightarrow> (SystemExit (if failures \<noteq> 0 then 2 else 0), w')))"

subsection \<open>Vocabulary of the properties\<close>

text \<open>
  A file system is well formed when every entry sits in a directory of the table and
  no entry is called \<^verbatim>\<open>".."\<close> (a directory listing never yields that name). In a well
  formed world the working directory is a directory.
\<close>

definition wf_fs :: "fsys \<Rightarrow> bool" where
  "wf_fs t = list_all (\<lambda>(q, k). q \<noteq> [] \<and> ''..'' \<notin> set q \<and> lookup t (butlast q) = Some Dir) t"

definition wf_world :: "world \<Rightarrow> bool" where
  "wf_world w = (wf_fs (fs w) \<and> lookup (fs w) (cwd w) = Some Dir)"

text \<open>The commands run so far, and their exit codes, in order.\<close>

definition spawned :: "event list \<Rightarrow> string list list" where
  "spawned es = [cmd. Spawn cmd rc \<leftarrow> es]"

definition exit_codes :: "event list \<Rightarrow> nat list" where
  "exit_codes es = [rc. Spawn cmd rc \<leftarrow> es]"

text \<open>The input path with its suffix replaced by \<^verbatim>\<open>".mp4"\<close>.\<close>

definition derived_out :: "path \<Rightarrow> path" where
  "derived_out f = Path (anchor f) (butlast (parts f) @ [stem f @ ''.mp4''])"

text \<open>
  An entry found below the directory \<open>root\<close>: \<open>root\<close> resolves to the directory at \<open>d\<close>,
  and the path is \<open>root\<close> extended by the names \<open>rel\<close> that lead from \<open>d\<close> to an entry
  whose name ends in \<^verbatim>\<open>".mov"\<close>.
\<close>

definition found_below :: "world \<Rightarrow> path \<Rightarrow> path \<Rightarrow> bool" where
  "found_below w root f =
     (\<exists>d rel. resolve (fs w) (start w root) (parts root) = Some d
        \<and> lookup (fs w) d = Some Dir
        \<and> rel \<noteq> [] \<and> lookup (fs w) (d @ rel) \<noteq> None
        \<and> fnmatch_mov (last rel)
        \<and> f = Path (anchor root) (parts root @ rel))"

text \<open>The passthrough arguments that \<^verbatim>\<open>main\<close> hands on: none when \<^verbatim>\<open>--extra\<close> is absent.\<close>

definition passthrough :: "args \<Rightarrow> string list" where
  "passthrough a = (case arg_extra a of None \<Rightarrow> [] | Some xs \<Rightarrow> xs)"

text \<open>
  The command of a conversion whose output path is derived from the input, and the
  events of such a conversion on the file system \<open>t\<close>.
\<close>

definition batch_cmd :: "string \<Rightarrow> bool \<Rightarrow> int \<Rightarrow> string \<Rightarrow> string list \<Rightarrow> path \<Rightarrow> string list" where
  "batch_cmd exe copy crf preset extra f = build_cmd exe f (derived_out f) copy crf preset extra"

definition file_events ::
  "encoder \<Rightarrow> string \<Rightarrow> bool \<Rightarrow> int \<Rightarrow> string \<Rightarrow> string list \<Rightarrow> fsys \<Rightarrow> path \<Rightarrow> event list" where
  "file_events enc exe copy crf preset extra t f =
     (let cmd = batch_cmd exe copy crf preset extra f; rc = enc cmd t
      in [Ejecutando cmd, Spawn cmd rc,
          if rc = 0 then Convertido (name f) (name (derived_out f)) else Fallo f rc])"

text \<open>
  The standard output can encode the progress lines of the conversion of \<open>f\<close>: the
  line before the encoder runs and, when the encoder ends with exit code 0, the line
  after it.
\<close>

definition prints_ok ::
  "encoder \<Rightarrow> string \<Rightarrow> bool \<Rightarrow> int \<Rightarrow> string \<Rightarrow> string list \<Rightarrow> world \<Rightarrow> path \<Rightarrow> bool" where
  "prints_ok enc exe copy crf preset extra w f =
     (let cmd = batch_cmd exe copy crf preset extra f
      in stdout_encodes w (stdout_text (Ejecutando cmd))
         \<and> (enc cmd (fs w) = 0
              \<longrightarrow> stdout_encodes w (stdout_text (Convertido (name f) (name (derived_out f))))))"

text \<open>How \<^verbatim>\<open>main\<close> ends a single-file run after \<^verbatim>\<open>convert_file\<close> (lines 121 and 122).\<close>

definition single_exit :: "(exn + bool) \<times> world \<Rightarrow> exn \<times> world" where
  "single_exit r =
     (case r of
        (Inl e, w') \<Rightarrow> (e, w')
      | (Inr ok, w') \<Rightarrow> (SystemExit (if ok then 0 else 2), w'))"

subsection \<open>Example runs\<close>

text \<open>
  Worlds and command lines on which the properties are evaluated. A world starts in
  the root directory with nothing emitted and a standard output that encodes every
  text; the command line has the defaults of the parser (quality 20, preset
  \<^verbatim>\<open>medium\<close>, no flags).
\<close>

definition world_of :: "fsys \<Rightarrow> string option \<Rightarrow> world" where
  "world_of t exe =
     \<lparr>fs = t, cwd = [], ffmpeg_exe = exe, stdout_encodes = (\<lambda>s. True), trace = []\<rparr>"



definition plain_args :: "string \<Rightarrow> args" where
  "plain_args s =
     \<lparr>arg_input = s, arg_output = None, arg_copy = False, arg_crf = 20,
      arg_preset = ''medium'', arg_recursive = False, arg_extra = None\<rparr>"

definition one_clip :: fsys where
  "one_clip = [([''clip.mov''], File)]"

definition three_clips :: fsys where
  "three_clips =
     [([''videos''], Dir),
      ([''videos'', ''a.mov''], File),
      ([''videos'', ''notes.txt''], File),
      ([''videos'', ''b.mov''], File),
      ([''videos'', ''old''], Dir),
      ([''videos'', ''old'', ''d.mov''], File),
      ([''videos'', ''c.mov''], File)]"


definition mov_directory :: fsys where
  "mov_directory =
     [([''videos''], Dir),
      ([''videos'', ''clips.mov''], Dir),
      ([''videos'', ''clips.mov'', ''readme.txt''], File)]"

definition always_ok :: encoder where
  "always_ok cmd t = 0"



section \<open>Properties\<close>

subsection \<open>Paths\<close>

text \<open>
  The name of a path is its stem followed by its suffix, and replacing the suffix by
  \<^verbatim>\<open>.mp4\<close> gives a path in the same directory whose suffix is \<^verbatim>\<open>.mp4\<close> and whose stem is
  the old one.
\<close>

lemma rfind_dot_mp4: "rfind (CHR ''.'') (st @ ''.mp4'') = Some (length st)"
  by (simp add: rfind_def)

lemma name_stem_suffix: "name p = stem p @ suffix p"
  by (simp add: stem_def suffix_def split: option.splits)

lemma stem_nonempty: "name p \<noteq> [] \<Longrightarrow> stem p \<noteq> []"
  by (auto simp: stem_def split: option.splits)

lemma with_suffix_mp4:
  "name p \<noteq> [] \<Longrightarrow>
   with_suffix p ''.mp4'' = Inr (Path (anchor p) (butlast (parts p) @ [stem p @ ''.mp4'']))"
  by (auto simp: with_suffix_def Let_def stem_def suffix_def split: option.splits)

lemma name_Path_snoc: "name (Path a (ds @ [n])) = n"
  by (simp add: name_def)

lemma suffix_mp4: "st \<noteq> [] \<Longrightarrow> suffix (Path a (ds @ [st @ ''.mp4''])) = ''.mp4''"
  by (simp add: suffix_def name_Path_snoc rfind_dot_mp4)

lemma stem_mp4: "st \<noteq> [] \<Longrightarrow> stem (Path a (ds @ [st @ ''.mp4''])) = st"
  by (simp add: stem_def name_Path_snoc rfind_dot_mp4)

lemma parent_Path_snoc: "parent (Path a (ds @ [n])) = Path a ds"
  by (simp add: parent_def)

lemma parent_with_name: "parent (Path (anchor p) (butlast (parts p) @ [n])) = parent p"
  by (simp add: parent_def)

lemma str_lower_mp4: "str_lower ''.mp4'' = ''.mp4''"
  by (simp add: str_lower_def lower_char_def)

subsection \<open>The file system\<close>

text \<open>
  In a well-formed file system every entry has a directory as its parent. Making
  directories keeps the file system well formed and keeps every entry; a successful
  \<open>mkdirs\<close> leaves the path resolving to a directory; and \<open>mkdirs\<close> on a path that
  already leads to a directory changes nothing.
\<close>

lemma lookup_in_set: "lookup t pos = Some k \<Longrightarrow> pos \<noteq> [] \<Longrightarrow> (pos, k) \<in> set t"
  by (simp add: lookup_def map_of_SomeD)

lemma wf_fs_entry:
  "wf_fs t \<Longrightarrow> (q, k) \<in> set t \<Longrightarrow> q \<noteq> [] \<and> ''..'' \<notin> set q \<and> lookup t (butlast q) = Some Dir"
  by (auto simp: wf_fs_def list_all_iff)

lemma lookup_parent: "wf_fs t \<Longrightarrow> lookup t pos = Some k \<Longrightarrow> lookup t (butlast pos) = Some Dir"
proof (cases "pos = []")
  case True
  then show ?thesis by (simp add: lookup_def)
next
  case False
  assume "wf_fs t" "lookup t pos = Some k"
  with False have "(pos, k) \<in> set t" by (simp add: lookup_in_set)
  with \<open>wf_fs t\<close> show ?thesis by (simp add: wf_fs_entry)
qed

lemma lookup_no_dotdot: "wf_fs t \<Longrightarrow> lookup t pos = Some k \<Longrightarrow> ''..'' \<notin> set pos"
proof (cases "pos = []")
  case True
  then show ?thesis by simp
next
  case False
  assume "wf_fs t" "lookup t pos = Some k"
  with False have "(pos, k) \<in> set t" by (simp add: lookup_in_set)
  with \<open>wf_fs t\<close> show ?thesis by (simp add: wf_fs_entry)
qed




lemma resolve_step_dir:
  "resolve t pos cs = Some q \<Longrightarrow> lookup t q = Some Dir \<Longrightarrow> lookup t pos = Some Dir"
  by (cases cs) (auto split: if_splits)

lemma mkdirs_append:
  "resolve t pos cs = Some q \<Longrightarrow> lookup t q = Some Dir \<Longrightarrow> mkdirs t pos (cs @ ds) = mkdirs t q ds"
proof (induction cs arbitrary: pos)
  case Nil
  then show ?case by (simp split: if_splits)
next
  case (Cons c cs)
  let ?pos' = "if c = ''..'' then butlast pos else pos @ [c]"
  from Cons.prems(1) have r: "resolve t ?pos' cs = Some q" by (simp split: if_splits)
  have d: "lookup t ?pos' = Some Dir" using r Cons.prems(2) by (rule resolve_step_dir)
  from Cons.IH [OF r Cons.prems(2)] d show ?case by (auto split: if_splits)
qed

lemma mkdirs_existing:
  "\<forall>i \<le> length ds. lookup t (d @ take i ds) = Some Dir \<Longrightarrow> ''..'' \<notin> set ds \<Longrightarrow>
   mkdirs t d ds = (True, t)"
proof (induction ds arbitrary: d)
  case Nil
  then show ?case by simp
next
  case (Cons c cs)
  from Cons.prems(1) have "lookup t (d @ take 1 (c # cs)) = Some Dir" by (metis One_nat_def Suc_leI length_Cons zero_less_Suc)
  then have l: "lookup t (d @ [c]) = Some Dir" by simp
  have "\<forall>i \<le> length cs. lookup t ((d @ [c]) @ take i cs) = Some Dir"
  proof (intro allI impI)
    fix i assume "i \<le> length cs"
    then have "Suc i \<le> length (c # cs)" by simp
    with Cons.prems(1) have "lookup t (d @ take (Suc i) (c # cs)) = Some Dir" by blast
    then show "lookup t ((d @ [c]) @ take i cs) = Some Dir" by simp
  qed
  with Cons.IH [of "d @ [c]"] Cons.prems(2) l show ?case by auto
qed

lemma prefix_dirs:
  "wf_fs t \<Longrightarrow> lookup t (d @ rel) = Some k \<Longrightarrow> i < length rel \<Longrightarrow> lookup t (d @ take i rel) = Some Dir"
proof (induction rel arbitrary: k rule: rev_induct)
  case Nil
  then show ?case by simp
next
  case (snoc x xs)
  from snoc.prems(1,2) have par: "lookup t (d @ xs) = Some Dir"
    using lookup_parent [of t "d @ xs @ [x]" k] by (simp add: butlast_append)
  show ?case
  proof (cases "i < length xs")
    case True
    with snoc.IH [OF snoc.prems(1) par] show ?thesis by simp
  next
    case False
    with snoc.prems(3) have "i = length xs" by simp
    with par show ?thesis by simp
  qed
qed

subsection \<open>The command builder\<close>

lemma occurrences_Cons_neq: "x \<noteq> a \<Longrightarrow> occurrences a b (x # ys) = occurrences a b ys"
  by (cases ys) simp_all

lemma build_cmd_unfold:
  "build_cmd ffmpeg inp out copy crf preset extra =
     [ffmpeg, ''-y'', ''-i'', str_of inp]
     @ (if copy then [''-c'', ''copy'']
        else [''-c:v'', ''libx264'', ''-crf'', str_int crf, ''-preset'', preset,
              ''-c:a'', ''aac'', ''-b:a'', ''192k''])
     @ [''-c:s'', ''copy'', ''-movflags'', ''+faststart'']
     @ extra @ [str_of out]"
  by (simp add: build_cmd_def Let_def)

text \<open>
  Claim C2, as the code has it. The command is the executable, \<^verbatim>\<open>-y\<close>, \<^verbatim>\<open>-i\<close> and the
  input path, then the directives \<open>ds\<close> of the builder, then the passthrough arguments
  and the output path. With the stream-copy flag unset, \<open>ds\<close> holds the directives
  \<^verbatim>\<open>-c:v libx264\<close>, \<^verbatim>\<open>-crf\<close> with the quality and \<^verbatim>\<open>-preset\<close> with the preset, and no
  \<^verbatim>\<open>-c copy\<close>; with the flag set, \<open>ds\<close> holds \<^verbatim>\<open>-c copy\<close> and no \<^verbatim>\<open>-c:v libx264\<close>, no
  \<^verbatim>\<open>-crf\<close> and no \<^verbatim>\<open>-preset\<close> directive. The passthrough arguments are outside \<open>ds\<close>.
\<close>

theorem build_cmd_codec_directives:
  "\<exists>ds. build_cmd ffmpeg inp out copy crf preset extra
          = [ffmpeg, ''-y'', ''-i'', str_of inp] @ ds @ extra @ [str_of out]
      \<and> (if copy
          then 0 < occurrences ''-c'' ''copy'' ds
             \<and> occurrences ''-c:v'' ''libx264'' ds = 0
             \<and> (\<forall>v. occurrences ''-crf'' v ds = 0)
             \<and> (\<forall>v. occurrences ''-preset'' v ds = 0)
          else 0 < occurrences ''-c:v'' ''libx264'' ds
             \<and> 0 < occurrences ''-crf'' (str_int crf) ds
             \<and> 0 < occurrences ''-preset'' preset ds
             \<and> occurrences ''-c'' ''copy'' ds = 0)"
proof (cases copy)
  case True
  show ?thesis
    by (rule exI [of _ "[''-c'', ''copy'', ''-c:s'', ''copy'', ''-movflags'', ''+faststart'']"])
       (simp add: build_cmd_unfold True)
next
  case False
  show ?thesis
    by (rule exI [of _ "[''-c:v'', ''libx264'', ''-crf'', str_int crf, ''-preset'', preset,
              ''-c:a'', ''aac'', ''-b:a'', ''192k'', ''-c:s'', ''copy'', ''-movflags'', ''+faststart'']"])
       (simp add: build_cmd_unfold False)
qed

text \<open>
  Claim C2 as stated fails: with the stream-copy flag unset and the passthrough
  arguments \<^verbatim>\<open>-c copy\<close>, the built command contains the stream-copy directive.
\<close>

theorem build_cmd_extra_stream_copy:
  "0 < occurrences ''-c'' ''copy''
     (build_cmd ''/usr/bin/ffmpeg'' (Path_of ''clip.mov'') (Path_of ''clip.mp4'') False 20 ''medium''
        [''-c'', ''copy''])"
  by (simp add: build_cmd_unfold)

text \<open>
  Claim C3, as the code has it. Whatever the stream-copy flag, the number of
  subtitle-copy directives \<^verbatim>\<open>-c:s copy\<close> in the built command is one plus the number
  of them in the passthrough arguments followed by the output path, and so is the
  number of metadata-relocation directives \<^verbatim>\<open>-movflags +faststart\<close>; the command
  always contains \<^verbatim>\<open>-y\<close>. The builder itself emits each directive exactly once.
\<close>

theorem build_cmd_fixed_directives:
  "occurrences ''-c:s'' ''copy'' (build_cmd ffmpeg inp out copy crf preset extra)
     = 1 + occurrences ''-c:s'' ''copy'' (extra @ [str_of out])
   \<and> occurrences ''-movflags'' ''+faststart'' (build_cmd ffmpeg inp out copy crf preset extra)
     = 1 + occurrences ''-movflags'' ''+faststart'' (extra @ [str_of out])
   \<and> ''-y'' \<in> set (build_cmd ffmpeg inp out copy crf preset extra)"
  by (simp add: build_cmd_unfold occurrences_Cons_neq)

text \<open>
  Claim C3 as stated fails: with the passthrough arguments \<^verbatim>\<open>-c:s copy\<close> the built
  command contains two subtitle-copy directives.
\<close>

theorem build_cmd_extra_subtitle_copy:
  "occurrences ''-c:s'' ''copy''
     (build_cmd ''/usr/bin/ffmpeg'' (Path_of ''clip.mov'') (Path_of ''clip.mp4'') False 20 ''medium''
        [''-c:s'', ''copy'']) = 2"
  by (simp add: build_cmd_unfold)

text \<open>
  Claim C4. The built command is the tokens the builder emits on its own (the command
  built without passthrough arguments, less its final output token), then the
  passthrough arguments unchanged, then the output path, which is the last token.
\<close>

theorem build_cmd_passthrough_then_output:
  "build_cmd ffmpeg inp out copy crf preset extra =
     butlast (build_cmd ffmpeg inp out copy crf preset []) @ extra @ [str_of out]
   \<and> last (build_cmd ffmpeg inp out copy crf preset extra) = str_of out"
  by (simp add: build_cmd_unfold butlast_append)

subsection \<open>One conversion\<close>

text \<open>
  \<^verbatim>\<open>convert_file\<close> unfolded: without an explicit output it runs as with the derived
  one; with \<^verbatim>\<open>ffmpeg\<close> on the search path it makes the directories, prints the command,
  runs the encoder on the resulting file system and returns whether the exit code was
  zero, unless one of its two lines cannot be printed. Then the single-file branch of
  \<^verbatim>\<open>main\<close>.
\<close>

lemma with_suffix_derived: "name p \<noteq> [] \<Longrightarrow> with_suffix p ''.mp4'' = Inr (derived_out p)"
  by (simp add: with_suffix_mp4 derived_out_def)

lemma parent_derived: "parent (derived_out p) = parent p"
  by (simp add: derived_out_def parent_def)

lemma name_derived: "name (derived_out p) = stem p @ ''.mp4''"
  by (simp add: derived_out_def name_def)

lemma suffix_derived: "name p \<noteq> [] \<Longrightarrow> suffix (derived_out p) = ''.mp4''"
  by (simp add: derived_out_def suffix_mp4 stem_nonempty)

lemma stem_derived: "name p \<noteq> [] \<Longrightarrow> stem (derived_out p) = stem p"
  by (simp add: derived_out_def stem_mp4 stem_nonempty)

lemma convert_file_None:
  "name inp \<noteq> [] \<Longrightarrow>
   convert_file enc inp None copy crf preset extra w
     = convert_file enc inp (Some (derived_out inp)) copy crf preset extra w"
  by (simp add: convert_file_def with_suffix_derived split: prod.splits sum.splits)


lemma convert_file_Some:
  assumes "ffmpeg_exe w = Some exe" "exe \<noteq> []"
  shows "convert_file enc inp (Some out) copy crf preset extra w =
     (case mkdirs (fs w) (start w (parent out)) (parts (parent out)) of
        (False, t) \<Rightarrow> (Inl OSError, w\<lparr>fs := t\<rparr>)
      | (True, t) \<Rightarrow>
          let cmd = build_cmd exe inp out copy crf preset extra; rc = enc cmd t
          in if \<not> stdout_encodes w (stdout_text (Ejecutando cmd))
             then (Inl UnicodeEncodeError, w\<lparr>fs := t\<rparr>)
             else if rc = 0 \<and> \<not> stdout_encodes w (stdout_text (Convertido (name inp) (name out)))
             then (Inl UnicodeEncodeError,
                   w\<lparr>fs := t, trace := trace w @ [Ejecutando cmd, Spawn cmd rc]\<rparr>)
             else (Inr (rc = 0),
                   w\<lparr>fs := t, trace := trace w @ [Ejecutando cmd, Spawn cmd rc,
                     if rc = 0 then Convertido (name inp) (name out) else Fallo inp rc]\<rparr>))"
  using assms
  by (auto simp: convert_file_def which_ffmpeg_def mkdir_parents_def print_def subprocess_run_def
        emit_def Let_def split: prod.splits bool.splits)

lemma is_file_exists: "is_file w p \<Longrightarrow> path_exists w p"
  by (simp add: is_file_def path_exists_def)

lemma passthrough_eq:
  "(case arg_extra a of None \<Rightarrow> [] | Some xs \<Rightarrow> if xs \<noteq> [] then xs else []) = passthrough a"
  by (simp add: passthrough_def split: option.splits)

lemma last_filter_nonempty: "filter P xs \<noteq> [] \<Longrightarrow> P (last (filter P xs))"
  using last_in_set [of "filter P xs"] by simp

lemma name_Path_of: "parts (Path_of s) \<noteq> [] \<Longrightarrow> name (Path_of s) \<noteq> []"
  using last_filter_nonempty [of "\<lambda>c. c \<noteq> [] \<and> c \<noteq> ''.''" "split_sep (CHR ''/'') s"]
  by (simp add: name_def Path_of_def)

lemma is_file_Path_of_name:
  assumes "wf_world w" "is_file w (Path_of s)"
  shows "name (Path_of s) \<noteq> []"
proof (cases "parts (Path_of s) = []")
  case True
  with assms show ?thesis
    by (auto simp: wf_world_def is_file_def stat_def start_def lookup_def split: if_splits)
next
  case False
  then show ?thesis by (rule name_Path_of)
qed

lemma main_single_file:
  assumes "is_file w (Path_of (arg_input a))"
  shows "main enc a w =
     (case (case arg_output a of
              None \<Rightarrow> Inr None
            | Some s \<Rightarrow>
                if s = [] then Inr None
                else if str_lower (suffix (Path_of s)) \<noteq> ''.mp4''
                     then map_sum id Some (with_suffix (Path_of s) ''.mp4'')
                     else Inr (Some (Path_of s))) of
        Inl e \<Rightarrow> (e, w)
      | Inr out \<Rightarrow>
          single_exit (convert_file enc (Path_of (arg_input a)) out (arg_copy a) (arg_crf a)
             (arg_preset a) (passthrough a) w))"
proof -
  have ex: "path_exists w (Path_of (arg_input a))" using assms by (rule is_file_exists)
  show ?thesis
    unfolding main_def Let_def passthrough_eq single_exit_def
    using assms ex by (simp split: option.splits sum.splits)
qed

lemma start_fs_update [simp]: "start (w\<lparr>fs := t\<rparr>) p = start w p"
  by (simp add: start_def)

lemma start_trace_update [simp]: "start (w\<lparr>trace := t\<rparr>) p = start w p"
  by (simp add: start_def)


subsection \<open>Discovery and the batch loop\<close>

text \<open>
  Every path that discovery returns for a directory is an entry below it with a name
  that ends in \<^verbatim>\<open>.mov\<close>. For such a path the parent directory exists, so \<^verbatim>\<open>mkdir\<close> changes
  nothing and the conversion reaches the encoder once its first line is printed. The
  loop visits the paths in order and leaves the file system as it was; it visits
  every path unless a line cannot be printed, and stops at the first such line.
\<close>

lemma spawned_append: "spawned (xs @ ys) = spawned xs @ spawned ys"
  by (simp add: spawned_def)

lemma exit_codes_append: "exit_codes (xs @ ys) = exit_codes xs @ exit_codes ys"
  by (simp add: exit_codes_def)

lemma spawned_file_events:
  "spawned (file_events enc exe copy crf preset extra t f) = [batch_cmd exe copy crf preset extra f]"
  by (simp add: spawned_def file_events_def Let_def)

lemma exit_codes_file_events:
  "exit_codes (file_events enc exe copy crf preset extra t f)
     = [enc (batch_cmd exe copy crf preset extra f) t]"
  by (simp add: exit_codes_def file_events_def Let_def)

lemma spawned_started [simp]: "spawned [Ejecutando cmd, Spawn cmd rc] = [cmd]"
  by (simp add: spawned_def)

lemma exit_codes_started [simp]: "exit_codes [Ejecutando cmd, Spawn cmd rc] = [rc]"
  by (simp add: exit_codes_def)

lemma spawned_No_movs: "spawned [No_movs] = []"
  by (simp add: spawned_def)

lemma exit_codes_No_movs: "exit_codes [No_movs] = []"
  by (simp add: exit_codes_def)

lemma fnmatch_mov_nonempty: "fnmatch_mov n \<Longrightarrow> n \<noteq> []"
  by (auto simp: fnmatch_mov_def)

lemma entry_lookup: "(q, k) \<in> set t \<Longrightarrow> lookup t q \<noteq> None"
  using weak_map_of_SomeI [of q k t] by (auto simp: lookup_def)

lemma glob_found: "f \<in> set (glob_mov w root) \<Longrightarrow> found_below w root f"
proof -
  assume a: "f \<in> set (glob_mov w root)"
  obtain d where d: "resolve (fs w) (start w root) (parts root) = Some d"
    using a by (cases "resolve (fs w) (start w root) (parts root)") (auto simp: glob_mov_def)
  have dd: "lookup (fs w) d = Some Dir"
    using a d by (cases "lookup (fs w) d = Some Dir") (auto simp: glob_mov_def)
  note d = d dd
  with a obtain q k where q: "(q, k) \<in> set (fs w)" "q \<noteq> []" "butlast q = d"
    "fnmatch_mov (last q)" "f = Path (anchor root) (parts root @ drop (length d) q)"
    by (auto simp: glob_mov_def)
  from q(2,3) have qd: "q = d @ [last q]" by (metis append_butlast_last_id)
  then have dr: "drop (length d) q = [last q]" by (metis append_eq_conv_conj)
  have "lookup (fs w) (d @ [last q]) \<noteq> None" using entry_lookup [OF q(1)] qd by simp
  with d q dr show ?thesis
    unfolding found_below_def
    by (intro exI [of _ d] exI [of _ "[last q]"]) simp
qed

lemma below_child: "q \<noteq> [] \<Longrightarrow> below (butlast q) q"
  by (simp add: below_def butlast_conv_take)

lemma below_trans:
  assumes "below d q" "below q p"
  shows "below d p"
proof -
  from assms(2) have l: "length q < length p" and tq: "take (length q) p = q"
    by (auto simp: below_def)
  from assms(1) have ld: "length d < length q" and td: "take (length d) q = d"
    by (auto simp: below_def)
  have "take (length d) p = take (length d) (take (length q) p)" using ld by (simp add: min_def)
  with tq td have "take (length d) p = d" by simp
  with l ld show ?thesis by (simp add: below_def)
qed

lemma rwalk_below:
  "q \<in> set (rwalk t d) \<Longrightarrow> below d q \<and> lookup t q \<noteq> None \<and> fnmatch_mov (last q)"
proof (induction t d arbitrary: q rule: rwalk.induct)
  case (1 t d)
  from "1.prems" consider
    (here) k where "(q, k) \<in> set t" "q \<noteq> []" "butlast q = d" "fnmatch_mov (last q)"
    | (deeper) c where "(c, Dir) \<in> set t" "c \<noteq> []" "butlast c = d" "q \<in> set (rwalk t c)"
    by (subst (asm) rwalk.simps) auto
  then show ?case
  proof cases
    case here
    then show ?thesis using below_child [of q] entry_lookup [of q k t] by auto
  next
    case deeper
    then have "c \<in> set [q. (q, k) \<leftarrow> t, q \<noteq> [], butlast q = d, k = Dir]" by auto
    from "1.IH" [OF this deeper(4)] have "below c q" "lookup t q \<noteq> None" "fnmatch_mov (last q)"
      by auto
    moreover have "below d c" using below_child [of c] deeper(2,3) by auto
    ultimately show ?thesis by (auto intro: below_trans)
  qed
qed

lemma rglob_found: "f \<in> set (rglob_mov w root) \<Longrightarrow> found_below w root f"
proof -
  assume a: "f \<in> set (rglob_mov w root)"
  obtain d where d: "resolve (fs w) (start w root) (parts root) = Some d"
    using a by (cases "resolve (fs w) (start w root) (parts root)") (auto simp: rglob_mov_def)
  have dd: "lookup (fs w) d = Some Dir"
    using a d by (cases "lookup (fs w) d = Some Dir") (auto simp: rglob_mov_def)
  from a d dd obtain q where q: "q \<in> set (rwalk (fs w) d)"
    "f = Path (anchor root) (parts root @ drop (length d) q)"
    by (auto simp: rglob_mov_def)
  from rwalk_below [OF q(1)] have b: "below d q" and l: "lookup (fs w) q \<noteq> None"
    and m: "fnmatch_mov (last q)" by auto
  let ?rel = "drop (length d) q"
  from b have qd: "q = d @ ?rel" by (metis append_take_drop_id below_def)
  from b have ne: "?rel \<noteq> []" by (simp add: below_def)
  have lq: "last ?rel = last q" using b by (simp add: below_def)
  have "lookup (fs w) (d @ ?rel) \<noteq> None" using l qd by simp
  with d dd q ne lq m show ?thesis
    unfolding found_below_def
    by (intro exI [of _ d] exI [of _ ?rel]) simp
qed

lemma iter_found:
  "\<not> is_file w root \<Longrightarrow> f \<in> set (iter_mov_files w root recursive) \<Longrightarrow> found_below w root f"
  by (auto simp: iter_mov_files_def glob_found rglob_found split: if_splits)

lemma found_name: "found_below w root f \<Longrightarrow> name f \<noteq> []"
  by (auto simp: found_below_def name_def fnmatch_mov_nonempty)

lemma found_mkdir:
  assumes "wf_world w" "found_below w root f"
  shows "mkdirs (fs w) (start w (parent f)) (parts (parent f)) = (True, fs w)"
proof -
  from assms(2) obtain d rel k where
    d: "resolve (fs w) (start w root) (parts root) = Some d" "lookup (fs w) d = Some Dir"
    and rel: "rel \<noteq> []" "lookup (fs w) (d @ rel) = Some k"
    and f: "f = Path (anchor root) (parts root @ rel)"
    by (auto simp: found_below_def)
  from assms(1) have wf: "wf_fs (fs w)" by (simp add: wf_world_def)
  have pf: "parts (parent f) = parts root @ butlast rel" "start w (parent f) = start w root"
    using f rel(1) by (simp_all add: parent_def butlast_append start_def)
  have nd: "''..'' \<notin> set (butlast rel)"
    using lookup_no_dotdot [OF wf rel(2)] by (auto dest: in_set_butlastD)
  have dirs: "\<forall>i \<le> length (butlast rel). lookup (fs w) (d @ take i (butlast rel)) = Some Dir"
  proof (intro allI impI)
    fix i assume "i \<le> length (butlast rel)"
    then have "i \<le> length rel - 1" by simp
    moreover have "0 < length rel" using rel(1) by simp
    ultimately have i: "i < length rel" by arith
    then have "take i (butlast rel) = take i rel" by (simp add: take_butlast)
    with prefix_dirs [OF wf rel(2) i] show "lookup (fs w) (d @ take i (butlast rel)) = Some Dir" by simp
  qed
  have "mkdirs (fs w) (start w root) (parts root @ butlast rel) = mkdirs (fs w) d (butlast rel)"
    using d by (rule mkdirs_append)
  also have "\<dots> = (True, fs w)" using dirs nd by (rule mkdirs_existing)
  finally show ?thesis using pf by simp
qed

lemma convert_file_found:
  assumes "wf_world w" "ffmpeg_exe w = Some exe" "exe \<noteq> []" "found_below w root f"
  shows "convert_file enc f None copy crf preset extra w =
     (let cmd = batch_cmd exe copy crf preset extra f; rc = enc cmd (fs w)
      in if \<not> stdout_encodes w (stdout_text (Ejecutando cmd))
         then (Inl UnicodeEncodeError, w)
         else if rc = 0
                 \<and> \<not> stdout_encodes w (stdout_text (Convertido (name f) (name (derived_out f))))
         then (Inl UnicodeEncodeError, w\<lparr>trace := trace w @ [Ejecutando cmd, Spawn cmd rc]\<rparr>)
         else (Inr (rc = 0),
               w\<lparr>trace := trace w @ file_events enc exe copy crf preset extra (fs w) f\<rparr>))"
proof -
  have n: "name f \<noteq> []" using assms(4) by (rule found_name)
  have m: "mkdirs (fs w) (start w (parent (derived_out f))) (parts (parent (derived_out f))) = (True, fs w)"
    using found_mkdir [OF assms(1,4)] by (simp add: parent_derived)
  show ?thesis
    by (simp add: convert_file_None [OF n] convert_file_Some [OF assms(2,3)] m Let_def
          batch_cmd_def file_events_def)
qed

lemma wf_world_trace [simp]: "wf_world (w\<lparr>trace := t\<rparr>) = wf_world w"
  by (simp add: wf_world_def)

lemma found_below_trace [simp]: "found_below (w\<lparr>trace := t\<rparr>) root f = found_below w root f"
  by (simp add: found_below_def)

lemma prints_ok_trace [simp]:
  "prints_ok enc exe copy crf preset extra (w\<lparr>trace := t\<rparr>) f
     = prints_ok enc exe copy crf preset extra w f"
  by (simp add: prints_ok_def)


lemma batch_loop_prefix:
  assumes "wf_world w" "ffmpeg_exe w = Some exe" "exe \<noteq> []" "\<forall>f \<in> set movs. found_below w root f"
    "batch_loop enc movs copy crf preset extra n w = (r, w')"
  shows "\<exists>k \<le> length movs.
       spawned (trace w') = spawned (trace w)
         @ map (batch_cmd exe copy crf preset extra) (take k movs)
     \<and> exit_codes (trace w') = exit_codes (trace w)
         @ map (\<lambda>f. enc (batch_cmd exe copy crf preset extra f) (fs w)) (take k movs)
     \<and> (r = Inl UnicodeEncodeError
         \<or> (k = length movs
            \<and> r = Inr (n + length (filter
                  (\<lambda>f. enc (batch_cmd exe copy crf preset extra f) (fs w) \<noteq> 0) movs))))"
  using assms
proof (induction movs arbitrary: n w)
  case Nil
  then show ?case by simp
next
  case (Cons f movs)
  let ?cmd = "batch_cmd exe copy crf preset extra f"
  let ?rc = "enc ?cmd (fs w)"
  let ?w1 = "w\<lparr>trace := trace w @ file_events enc exe copy crf preset extra (fs w) f\<rparr>"
  from Cons.prems(4) have fb: "found_below w root f" by simp
  note cf = convert_file_found [OF Cons.prems(1,2,3) fb, of enc copy crf preset extra]
  consider (first) "\<not> stdout_encodes w (stdout_text (Ejecutando ?cmd))"
    | (second) "stdout_encodes w (stdout_text (Ejecutando ?cmd))" "?rc = 0"
        "\<not> stdout_encodes w (stdout_text (Convertido (name f) (name (derived_out f))))"
    | (finished) "convert_file enc f None copy crf preset extra w = (Inr (?rc = 0), ?w1)"
  proof (cases "stdout_encodes w (stdout_text (Ejecutando ?cmd))")
    case False
    then show ?thesis by (rule first)
  next
    case enc1: True
    show ?thesis
    proof (cases "?rc = 0
        \<and> \<not> stdout_encodes w (stdout_text (Convertido (name f) (name (derived_out f))))")
      case True
      with enc1 show ?thesis by (intro second) simp_all
    next
      case False
      with enc1 have "convert_file enc f None copy crf preset extra w = (Inr (?rc = 0), ?w1)"
        by (simp add: cf Let_def)
      then show ?thesis by (rule finished)
    qed
  qed
  then show ?case
  proof cases
    case first
    with cf Cons.prems(5) have "r = Inl UnicodeEncodeError" "w' = w" by (auto simp: Let_def)
    then show ?thesis by (intro exI [of _ 0]) simp
  next
    case second
    with cf Cons.prems(5) have "r = Inl UnicodeEncodeError"
      "w' = w\<lparr>trace := trace w @ [Ejecutando ?cmd, Spawn ?cmd ?rc]\<rparr>"
      by (auto simp: Let_def)
    then show ?thesis
      by (intro exI [of _ "Suc 0"]) (simp add: spawned_append exit_codes_append)
  next
    case finished
    with Cons.prems(5) have bl: "batch_loop enc movs copy crf preset extra
        (n + (if ?rc = 0 then 0 else 1)) ?w1 = (r, w')"
      by simp
    have "\<exists>k \<le> length movs.
       spawned (trace w') = spawned (trace ?w1)
         @ map (batch_cmd exe copy crf preset extra) (take k movs)
     \<and> exit_codes (trace w') = exit_codes (trace ?w1)
         @ map (\<lambda>f. enc (batch_cmd exe copy crf preset extra f) (fs ?w1)) (take k movs)
     \<and> (r = Inl UnicodeEncodeError
         \<or> (k = length movs
            \<and> r = Inr (n + (if ?rc = 0 then 0 else 1) + length (filter
                  (\<lambda>f. enc (batch_cmd exe copy crf preset extra f) (fs ?w1) \<noteq> 0) movs))))"
      using Cons.prems(1-4) bl by (intro Cons.IH) simp_all
    then obtain k where k: "k \<le> length movs"
      "spawned (trace w') = spawned (trace ?w1)
         @ map (batch_cmd exe copy crf preset extra) (take k movs)"
      "exit_codes (trace w') = exit_codes (trace ?w1)
         @ map (\<lambda>f. enc (batch_cmd exe copy crf preset extra f) (fs ?w1)) (take k movs)"
      "r = Inl UnicodeEncodeError
         \<or> (k = length movs
            \<and> r = Inr (n + (if ?rc = 0 then 0 else 1) + length (filter
                  (\<lambda>f. enc (batch_cmd exe copy crf preset extra f) (fs ?w1) \<noteq> 0) movs)))"
      by blast
    show ?thesis
      using k
      by (intro exI [of _ "Suc k"])
         (auto simp: spawned_append exit_codes_append spawned_file_events exit_codes_file_events)
  qed
qed


lemma main_batch:
  assumes "path_exists w (Path_of (arg_input a))" "\<not> is_file w (Path_of (arg_input a))"
  shows "main enc a w =
     (let movs = iter_mov_files w (Path_of (arg_input a)) (arg_recursive a) in
      if movs = [] then
        (if stdout_encodes w (stdout_text No_movs) then (SystemExit 0, emit No_movs w)
         else (UnicodeEncodeError, w))
      else (case batch_loop enc movs (arg_copy a) (arg_crf a) (arg_preset a) (passthrough a) 0 w of
              (Inl e, w') \<Rightarrow> (e, w')
            | (Inr failures, w') \<Rightarrow> (SystemExit (if failures \<noteq> 0 then 2 else 0), w')))"
  unfolding main_def Let_def passthrough_eq using assms by (simp add: print_def)

lemma main_batch_prefix:
  assumes "wf_world w" "ffmpeg_exe w = Some exe" "exe \<noteq> []"
    "path_exists w (Path_of (arg_input a))" "\<not> is_file w (Path_of (arg_input a))"
    "movs = iter_mov_files w (Path_of (arg_input a)) (arg_recursive a)"
    "main enc a w = (x, w')"
  shows "\<exists>k \<le> length movs.
       spawned (trace w') = spawned (trace w)
         @ map (batch_cmd exe (arg_copy a) (arg_crf a) (arg_preset a) (passthrough a)) (take k movs)
     \<and> exit_codes (trace w') = exit_codes (trace w)
         @ map (\<lambda>f. enc (batch_cmd exe (arg_copy a) (arg_crf a) (arg_preset a) (passthrough a) f)
                  (fs w)) (take k movs)
     \<and> (x = UnicodeEncodeError
         \<or> (k = length movs
            \<and> x = SystemExit (if \<exists>f \<in> set movs.
                  enc (batch_cmd exe (arg_copy a) (arg_crf a) (arg_preset a) (passthrough a) f) (fs w) \<noteq> 0
                then 2 else 0)))"
proof (cases "movs = []")
  case True
  with assms(6,7) have "x = UnicodeEncodeError \<and> w' = w
      \<or> x = SystemExit 0 \<and> w' = emit No_movs w"
    by (auto simp: main_batch [OF assms(4,5)] Let_def split: if_splits)
  then show ?thesis
    using True
    by (auto simp: emit_def spawned_append exit_codes_append spawned_No_movs exit_codes_No_movs)
next
  case False
  have fb: "\<forall>f \<in> set movs. found_below w (Path_of (arg_input a)) f"
    using assms(5,6) by (auto intro: iter_found)
  obtain r w1 where bl: "batch_loop enc movs (arg_copy a) (arg_crf a) (arg_preset a)
      (passthrough a) 0 w = (r, w1)"
    by fastforce
  from assms(6,7) False bl have m: "(x, w') = (case r of Inl e \<Rightarrow> (e, w1)
      | Inr failures \<Rightarrow> (SystemExit (if failures \<noteq> 0 then 2 else 0), w1))"
    by (simp add: main_batch [OF assms(4,5)] Let_def split: sum.splits)
  from batch_loop_prefix [OF assms(1,2,3) fb bl] obtain k where k: "k \<le> length movs"
    "spawned (trace w1) = spawned (trace w)
         @ map (batch_cmd exe (arg_copy a) (arg_crf a) (arg_preset a) (passthrough a)) (take k movs)"
    "exit_codes (trace w1) = exit_codes (trace w)
         @ map (\<lambda>f. enc (batch_cmd exe (arg_copy a) (arg_crf a) (arg_preset a) (passthrough a) f)
                  (fs w)) (take k movs)"
    "r = Inl UnicodeEncodeError
         \<or> (k = length movs
            \<and> r = Inr (0 + length (filter
                  (\<lambda>f. enc (batch_cmd exe (arg_copy a) (arg_crf a) (arg_preset a) (passthrough a) f)
                         (fs w) \<noteq> 0) movs)))"
    by blast
  from k(4) m have "w' = w1" by (auto split: sum.splits)
  moreover from k(4) m have "x = UnicodeEncodeError
         \<or> (k = length movs
            \<and> x = SystemExit (if \<exists>f \<in> set movs.
                  enc (batch_cmd exe (arg_copy a) (arg_crf a) (arg_preset a) (passthrough a) f) (fs w) \<noteq> 0
                then 2 else 0))"
    by (auto simp: filter_empty_conv)
  ultimately show ?thesis using k(1,2,3) by blast
qed


subsection \<open>Exit codes\<close>













subsection \<open>Output paths and discovery\<close>

text \<open>
  Claim C5. A conversion without explicit output path, of an input whose name is not
  empty (every file and every discovered entry has one), with \<^verbatim>\<open>ffmpeg\<close> on the search
  path, works on the path \<open>derived_out inp\<close>, which is what \<^verbatim>\<open>with_suffix\<close> returns: the
  directory it makes is the directory of the input; the only command it can run is
  the one built for that output path, which ends in it, and it runs that command
  exactly when \<^verbatim>\<open>mkdir\<close> succeeds and the line announcing the command can be printed,
  in particular whenever the conversion returns. The derived path lies in the
  directory of the input, and its name is the name of the input with the suffix
  replaced by \<^verbatim>\<open>.mp4\<close> (appended when the input has no suffix).
\<close>

theorem convert_file_derived_output:
  assumes "name inp \<noteq> []" "ffmpeg_exe w = Some exe" "exe \<noteq> []"
    "convert_file enc inp None copy crf preset extra w = (r, w')"
  shows "with_suffix inp ''.mp4'' = Inr (derived_out inp)
     \<and> convert_file enc inp None copy crf preset extra w
         = convert_file enc inp (Some (derived_out inp)) copy crf preset extra w
     \<and> fs w' = snd (mkdirs (fs w) (start w (parent inp)) (parts (parent inp)))
     \<and> spawned (trace w') = spawned (trace w)
         @ (if fst (mkdirs (fs w) (start w (parent inp)) (parts (parent inp)))
               \<and> stdout_encodes w (stdout_text
                     (Ejecutando (build_cmd exe inp (derived_out inp) copy crf preset extra)))
            then [build_cmd exe inp (derived_out inp) copy crf preset extra] else [])
     \<and> (\<forall>ok. r = Inr ok \<longrightarrow> spawned (trace w') = spawned (trace w)
           @ [build_cmd exe inp (derived_out inp) copy crf preset extra])
     \<and> last (build_cmd exe inp (derived_out inp) copy crf preset extra) = str_of (derived_out inp)
     \<and> parent (derived_out inp) = parent inp
     \<and> name inp = stem inp @ suffix inp
     \<and> name (derived_out inp) = stem inp @ ''.mp4''
     \<and> suffix (derived_out inp) = ''.mp4''"
proof -
  let ?cmd = "build_cmd exe inp (derived_out inp) copy crf preset extra"
  let ?m = "mkdirs (fs w) (start w (parent inp)) (parts (parent inp))"
  have same: "convert_file enc inp None copy crf preset extra w
      = convert_file enc inp (Some (derived_out inp)) copy crf preset extra w"
    using assms(1) by (rule convert_file_None)
  obtain b t where m: "?m = (b, t)" by (cases ?m)
  from assms(4) same have c: "convert_file enc inp (Some (derived_out inp)) copy crf preset extra w
      = (r, w')" by simp
  have ev: "fs w' = t
      \<and> spawned (trace w') = spawned (trace w)
          @ (if b \<and> stdout_encodes w (stdout_text (Ejecutando ?cmd)) then [?cmd] else [])
      \<and> (\<forall>ok. r = Inr ok \<longrightarrow> spawned (trace w') = spawned (trace w) @ [?cmd])"
    using c m
    by (cases b)
       (auto simp: convert_file_Some [OF assms(2,3)] parent_derived Let_def spawned_append
          spawned_def split: if_splits)
  have lst: "last ?cmd = str_of (derived_out inp)" by (simp add: build_cmd_unfold)
  show ?thesis
    using assms(1) same ev m lst
    by (auto simp: with_suffix_derived parent_derived name_derived suffix_derived
          name_stem_suffix [symmetric])
qed

theorem convert_file_derived_output_witness:
  "name (Path_of ''videos/a.mov'') \<noteq> []
   \<and> ffmpeg_exe (world_of three_clips (Some ''/usr/bin/ffmpeg'')) = Some ''/usr/bin/ffmpeg''
   \<and> with_suffix (Path_of ''videos/a.mov'') ''.mp4'' = Inr (Path [] [''videos'', ''a.mp4''])
   \<and> fst (convert_file always_ok (Path_of ''videos/a.mov'') None False 20 ''medium'' []
         (world_of three_clips (Some ''/usr/bin/ffmpeg''))) = Inr True
   \<and> map last (spawned (trace (snd (convert_file always_ok (Path_of ''videos/a.mov'') None
         False 20 ''medium'' [] (world_of three_clips (Some ''/usr/bin/ffmpeg''))))))
       = [''videos/a.mp4'']"
proof -
  let ?w = "world_of three_clips (Some ''/usr/bin/ffmpeg'')"
  let ?p = "Path_of ''videos/a.mov''"
  let ?r = "convert_file always_ok ?p None False 20 ''medium'' [] ?w"
  have n: "name ?p \<noteq> []" by code_simp
  have exe: "ffmpeg_exe ?w = Some ''/usr/bin/ffmpeg''" by (simp add: world_of_def)
  have ne: "''/usr/bin/ffmpeg'' \<noteq> []" by simp
  have d: "derived_out ?p = Path [] [''videos'', ''a.mp4'']" by code_simp
  have ok: "fst ?r = Inr True" by code_simp
  have cmds: "map last (spawned (trace (snd ?r))) = [''videos/a.mp4'']" by code_simp
  have run: "?r = (fst ?r, snd ?r)" by simp
  from convert_file_derived_output [OF n exe ne run] d
  have "with_suffix ?p ''.mp4'' = Inr (Path [] [''videos'', ''a.mp4''])" by simp
  with n exe ok cmds show ?thesis by simp
qed

text \<open>
  Claim C6, as the code has it. In a single-file run with a non-empty explicit output
  path whose name is not empty, the conversion receives the given path itself when
  its suffix, in lower case, is \<^verbatim>\<open>.mp4\<close>, and otherwise the given path with the suffix
  replaced by \<^verbatim>\<open>.mp4\<close> (appended when it has none): the path \<^verbatim>\<open>with_suffix\<close> returns, in
  the same directory, whose suffix is \<^verbatim>\<open>.mp4\<close> and whose stem is the stem of the given
  path. So \<^verbatim>\<open>.mp4\<close> is never appended to a path that ends in it.
\<close>

theorem main_explicit_output:
  assumes "is_file w (Path_of (arg_input a))" "arg_output a = Some s" "s \<noteq> []"
    "name (Path_of s) \<noteq> []"
  shows "main enc a w =
           single_exit (convert_file enc (Path_of (arg_input a))
              (Some (if str_lower (suffix (Path_of s)) = ''.mp4'' then Path_of s
                     else derived_out (Path_of s)))
              (arg_copy a) (arg_crf a) (arg_preset a) (passthrough a) w)
     \<and> with_suffix (Path_of s) ''.mp4'' = Inr (derived_out (Path_of s))
     \<and> name (Path_of s) = stem (Path_of s) @ suffix (Path_of s)
     \<and> name (derived_out (Path_of s)) = stem (Path_of s) @ ''.mp4''
     \<and> suffix (derived_out (Path_of s)) = ''.mp4''
     \<and> stem (derived_out (Path_of s)) = stem (Path_of s)
     \<and> parent (derived_out (Path_of s)) = parent (Path_of s)"
  using assms
  by (simp add: main_single_file with_suffix_derived name_derived suffix_derived stem_derived
        parent_derived name_stem_suffix [symmetric])

theorem main_explicit_output_witness:
  "is_file (world_of one_clip (Some ''/usr/bin/ffmpeg'')) (Path_of ''clip.mov'')
   \<and> name (Path_of ''out/final.mov'') \<noteq> []
   \<and> str_lower (suffix (Path_of ''out/final.mov'')) = ''.mov''
   \<and> with_suffix (Path_of ''out/final.mov'') ''.mp4'' = Inr (Path [] [''out'', ''final.mp4''])
   \<and> map last (spawned (trace (snd (main always_ok
         ((plain_args ''clip.mov'')\<lparr>arg_output := Some ''out/final.mov''\<rparr>)
         (world_of one_clip (Some ''/usr/bin/ffmpeg'')))))) = [''out/final.mp4'']"
proof -
  let ?w = "world_of one_clip (Some ''/usr/bin/ffmpeg'')"
  let ?a = "(plain_args ''clip.mov'')\<lparr>arg_output := Some ''out/final.mov''\<rparr>"
  have f: "is_file ?w (Path_of (arg_input ?a))" by code_simp
  have o: "arg_output ?a = Some ''out/final.mov''" by (simp add: plain_args_def)
  have n: "name (Path_of ''out/final.mov'') \<noteq> []" by code_simp
  have l: "str_lower (suffix (Path_of ''out/final.mov'')) = ''.mov''" by code_simp
  have d: "derived_out (Path_of ''out/final.mov'') = Path [] [''out'', ''final.mp4'']" by code_simp
  have i: "arg_input ?a = ''clip.mov''" by (simp add: plain_args_def)
  have t: "map last (spawned (trace (snd (main always_ok ?a ?w)))) = [''out/final.mp4'']"
    by code_simp
  from main_explicit_output [OF f o _ n] d
  have "with_suffix (Path_of ''out/final.mov'') ''.mp4'' = Inr (Path [] [''out'', ''final.mp4''])"
    by simp
  with f n l t i show ?thesis by simp
qed

text \<open>
  Claim C6 as stated fails: the explicit output path \<^verbatim>\<open>out.MP4\<close> has the extension
  \<^verbatim>\<open>.MP4\<close>, which is not \<^verbatim>\<open>.mp4\<close>, and the run keeps it: the command ends in \<^verbatim>\<open>out.MP4\<close>.
  The script compares the extension in lower case.
\<close>

theorem main_output_upper_case_kept:
  "suffix (Path_of ''out.MP4'') \<noteq> ''.mp4''
   \<and> map last (spawned (trace (snd (main always_ok
         ((plain_args ''clip.mov'')\<lparr>arg_output := Some ''out.MP4''\<rparr>)
         (world_of one_clip (Some ''/usr/bin/ffmpeg'')))))) = [''out.MP4'']"
  by code_simp

text \<open>
  Discovery: a root that is a file is returned as it is; in a directory, without
  recursion, every result is an entry of the root directory whose name ends in
  \<^verbatim>\<open>.mov\<close>; and every such entry is returned, with and without recursion, whether it
  is a file or a directory.
\<close>

lemma iter_mov_files_file: "is_file w root \<Longrightarrow> iter_mov_files w root recursive = [root]"
  by (simp add: iter_mov_files_def)

lemma iter_mov_files_top_level:
  assumes "\<not> is_file w root" "f \<in> set (iter_mov_files w root False)"
  shows "parent f = root \<and> fnmatch_mov (name f)"
proof -
  from assms have a: "f \<in> set (glob_mov w root)" by (simp add: iter_mov_files_def)
  obtain d where d: "resolve (fs w) (start w root) (parts root) = Some d"
    using a by (cases "resolve (fs w) (start w root) (parts root)") (auto simp: glob_mov_def)
  with a obtain q k where q: "q \<noteq> []" "butlast q = d" "fnmatch_mov (last q)"
    "f = Path (anchor root) (parts root @ drop (length d) q)"
    by (auto simp: glob_mov_def split: if_splits)
  from q(1,2) have "q = d @ [last q]" by (metis append_butlast_last_id)
  then have "drop (length d) q = [last q]" by (metis append_eq_conv_conj)
  with q show ?thesis by (simp add: parent_def name_def)
qed

lemma iter_mov_files_any_kind:
  assumes "\<not> is_file w root" "resolve (fs w) (start w root) (parts root) = Some d"
    "lookup (fs w) d = Some Dir" "(d @ [n], k) \<in> set (fs w)" "fnmatch_mov n"
  shows "child root n \<in> set (iter_mov_files w root False)
     \<and> child root n \<in> set (iter_mov_files w root True)"
proof -
  have g: "child root n \<in> set (glob_mov w root)"
    using assms(2-5)
    by (auto simp: glob_mov_def child_def intro!: bexI [of _ "(d @ [n], k)"])
  have "d @ [n] \<in> set (rwalk (fs w) d)"
    using assms(4,5) by (subst rwalk.simps) (auto intro!: bexI [of _ "(d @ [n], k)"])
  then have r: "child root n \<in> set (rglob_mov w root)"
    using assms(2,3) by (auto simp: rglob_mov_def child_def intro!: image_eqI [of _ _ "d @ [n]"])
  from g r assms(1) show ?thesis by (simp add: iter_mov_files_def)
qed

text \<open>
  Claim C7 fails on the code at a directory whose name ends in \<^verbatim>\<open>.mov\<close>: discovery in
  \<^verbatim>\<open>videos\<close>, which holds the directory \<^verbatim>\<open>clips.mov\<close>, returns that directory, with and
  without recursion, although it is not a file.
\<close>

theorem iter_mov_files_yields_directory:
  "iter_mov_files (world_of mov_directory None) (Path_of ''videos'') False
     = [Path [] [''videos'', ''clips.mov'']]
   \<and> iter_mov_files (world_of mov_directory None) (Path_of ''videos'') True
     = [Path [] [''videos'', ''clips.mov'']]
   \<and> is_dir (world_of mov_directory None) (Path [] [''videos'', ''clips.mov''])
   \<and> \<not> is_file (world_of mov_directory None) (Path [] [''videos'', ''clips.mov''])"
  by code_simp

subsection \<open>Batch runs and failed conversions\<close>




text \<open>
  Claim C9. In a run on a directory, in a well-formed world with \<^verbatim>\<open>ffmpeg\<close> on the
  search path, an explicit \<^verbatim>\<open>--output\<close> changes nothing: the run with any output
  argument is the run without it; the commands it runs are those built, for the
  discovered entries in order, with the output path derived from the input (for all
  entries unless a \<^verbatim>\<open>UnicodeEncodeError\<close> of \<^verbatim>\<open>print\<close> ended the run); and the derived path
  is what \<^verbatim>\<open>with_suffix\<close> returns for the entry and the last token of its command.
\<close>

theorem batch_ignores_output:
  assumes "wf_world w" "ffmpeg_exe w = Some exe" "exe \<noteq> []"
    "path_exists w (Path_of (arg_input a))" "\<not> is_file w (Path_of (arg_input a))"
    "movs = iter_mov_files w (Path_of (arg_input a)) (arg_recursive a)"
  shows "main enc (a\<lparr>arg_output := out\<rparr>) w = main enc a w
     \<and> (\<exists>k \<le> length movs.
           spawned (trace (snd (main enc (a\<lparr>arg_output := out\<rparr>) w))) = spawned (trace w)
             @ map (\<lambda>f. build_cmd exe f (derived_out f) (arg_copy a) (arg_crf a) (arg_preset a)
                      (passthrough a)) (take k movs)
         \<and> (fst (main enc (a\<lparr>arg_output := out\<rparr>) w) \<noteq> UnicodeEncodeError
              \<longrightarrow> k = length movs))
     \<and> (\<forall>f \<in> set movs. with_suffix f ''.mp4'' = Inr (derived_out f)
           \<and> last (build_cmd exe f (derived_out f) (arg_copy a) (arg_crf a) (arg_preset a)
                    (passthrough a)) = str_of (derived_out f))"
proof -
  let ?a = "a\<lparr>arg_output := out\<rparr>"
  have p: "passthrough ?a = passthrough a" by (simp add: passthrough_def)
  have same: "main enc ?a w = main enc a w"
    using assms(4,5) main_batch [of w ?a enc] main_batch [of w a enc] by (simp add: p Let_def)
  have bc: "batch_cmd exe (arg_copy a) (arg_crf a) (arg_preset a) (passthrough a)
      = (\<lambda>f. build_cmd exe f (derived_out f) (arg_copy a) (arg_crf a) (arg_preset a) (passthrough a))"
    by (rule ext) (simp add: batch_cmd_def)
  have run: "main enc a w = (fst (main enc a w), snd (main enc a w))" by simp
  from main_batch_prefix [OF assms(1-6) run] obtain k where k: "k \<le> length movs"
    "spawned (trace (snd (main enc a w))) = spawned (trace w)
           @ map (batch_cmd exe (arg_copy a) (arg_crf a) (arg_preset a) (passthrough a))
               (take k movs)"
    "fst (main enc a w) \<noteq> UnicodeEncodeError \<longrightarrow> k = length movs"
    by blast
  have cmds: "\<exists>k \<le> length movs.
           spawned (trace (snd (main enc ?a w))) = spawned (trace w)
             @ map (\<lambda>f. build_cmd exe f (derived_out f) (arg_copy a) (arg_crf a) (arg_preset a)
                      (passthrough a)) (take k movs)
         \<and> (fst (main enc ?a w) \<noteq> UnicodeEncodeError \<longrightarrow> k = length movs)"
    using k by (intro exI [of _ k]) (simp add: same bc)
  have each: "with_suffix f ''.mp4'' = Inr (derived_out f)" if "f \<in> set movs" for f
  proof -
    from that assms(5,6) have "found_below w (Path_of (arg_input a)) f" by (auto intro: iter_found)
    then have "name f \<noteq> []" by (rule found_name)
    then show ?thesis by (rule with_suffix_derived)
  qed
  have lst: "last (build_cmd exe f (derived_out f) (arg_copy a) (arg_crf a) (arg_preset a)
      (passthrough a)) = str_of (derived_out f)" for f
    by (simp add: build_cmd_unfold)
  from same cmds each lst show ?thesis by blast
qed

theorem batch_ignores_output_witness:
  "wf_world (world_of three_clips (Some ''/usr/bin/ffmpeg''))
   \<and> path_exists (world_of three_clips (Some ''/usr/bin/ffmpeg'')) (Path_of ''videos'')
   \<and> \<not> is_file (world_of three_clips (Some ''/usr/bin/ffmpeg'')) (Path_of ''videos'')
   \<and> main always_ok ((plain_args ''videos'')\<lparr>arg_output := Some ''elsewhere/out.mp4''\<rparr>)
         (world_of three_clips (Some ''/usr/bin/ffmpeg''))
       = main always_ok (plain_args ''videos'') (world_of three_clips (Some ''/usr/bin/ffmpeg''))
   \<and> map last (spawned (trace (snd (main always_ok
         ((plain_args ''videos'')\<lparr>arg_output := Some ''elsewhere/out.mp4''\<rparr>)
         (world_of three_clips (Some ''/usr/bin/ffmpeg''))))))
       = [''videos/a.mp4'', ''videos/b.mp4'', ''videos/c.mp4'']"
proof -
  let ?w = "world_of three_clips (Some ''/usr/bin/ffmpeg'')"
  let ?a = "plain_args ''videos''"
  have wf: "wf_world ?w" by code_simp
  have exe: "ffmpeg_exe ?w = Some ''/usr/bin/ffmpeg''" by (simp add: world_of_def)
  have ne: "''/usr/bin/ffmpeg'' \<noteq> []" by simp
  have i: "arg_input ?a = ''videos''" by (simp add: plain_args_def)
  have ex: "path_exists ?w (Path_of (arg_input ?a))" by code_simp
  have nf: "\<not> is_file ?w (Path_of (arg_input ?a))" by code_simp
  have t: "map last (spawned (trace (snd (main always_ok
         (?a\<lparr>arg_output := Some ''elsewhere/out.mp4''\<rparr>) ?w))))
       = [''videos/a.mp4'', ''videos/b.mp4'', ''videos/c.mp4'']"
    by code_simp
  from batch_ignores_output [OF wf exe ne ex nf refl, of always_ok "Some ''elsewhere/out.mp4''"]
  have "main always_ok (?a\<lparr>arg_output := Some ''elsewhere/out.mp4''\<rparr>) ?w = main always_ok ?a ?w"
    by (rule conjunct1)
  with wf ex nf t i show ?thesis by simp
qed




end
